theory Spec2Isabelle
  imports Main "HOL-Library.Sublist"
begin

section \<open>Errors, strings and log records\<close>

text \<open>
  A Go \<open>error\<close> value.  \<open>Errorf\<close> is \<open>fmt.Errorf\<close> applied to a constant message;
  \<open>NewRequestNotFoundError\<close> is the wrapper of package \<open>api/errors\<close>, kept as a free
  constructor.  \<open>Error\<close> is the method \<open>err.Error()\<close>; the wrapper embeds the wrapped
  error and so answers with its message.
\<close>

datatype error = Errorf string | NewRequestNotFoundError error

fun Error :: "error \<Rightarrow> string" where
  "Error (Errorf s) = s"
| "Error (NewRequestNotFoundError e) = Error e"

text \<open>\<open>strings.Contains(s, substr)\<close>: \<open>substr\<close> occurs in \<open>s\<close> as a contiguous block.\<close>

fun Contains :: "string \<Rightarrow> string \<Rightarrow> bool" where
  "Contains [] substr = (substr = [])"
| "Contains (c # s) substr = (prefix substr (c # s) \<or> Contains s substr)"

text \<open>
  What logrus is asked to print: the level, the format string and the arguments.
  \<open>Logv\<close> is the unformatted \<open>logrus.Error(err)\<close>.
\<close>

datatype level = DebugLevel | InfoLevel | ErrorLevel

datatype arg = S string | E error | ListenerAddr nat

datatype log_entry = Logf level string "arg list" | Logv level "arg list"

section \<open>\<open>serveAPI\<close> and \<open>Wait\<close>: one goroutine per server, one error channel\<close>

text \<open>
  The body of the goroutine after \<open>srv.Serve()\<close> has returned \<open>err\<close>: an error whose
  message contains the listener-closed text is replaced by nil, everything else is
  kept; the result is what the goroutine sends on \<open>chErrors\<close>.  Go's nil error is
  \<open>None\<close>.
\<close>

definition closedMsg :: string where
  "closedMsg = ''use of closed network connection''"

definition goroutine_err :: "error option \<Rightarrow> error option" where
  "goroutine_err err =
     (if err \<noteq> None \<and> Contains (Error (the err)) closedMsg then None else err)"

text \<open>
  The threads of \<open>Wait\<close> as a transition system.  The main thread runs \<open>Wait\<close>, which
  calls \<open>serveAPI\<close>: it is at the \<open>k\<close>-th iteration of the spawning loop, at the
  \<open>i\<close>-th iteration of the receiving loop, back in \<open>Wait\<close> with the value \<open>serveAPI\<close>
  returned, or it has returned from \<open>Wait\<close>.  The goroutine of the \<open>j\<close>-th server (in
  the order of \<open>s.servers\<close>) is not yet spawned, spawned, inside \<open>srv.Serve()\<close>, or has
  sent its value and exited.
\<close>

datatype gstate = NotStarted | Spawned | Serving | Exited

datatype pc = Spawning nat | Receiving nat | ServeAPIReturned "error option" | WaitReturned

text \<open>
  \<open>chErrors\<close> is the buffer of the channel, oldest value first; \<open>waitChan\<close> collects
  every value sent on the channel given to \<open>Wait\<close>.  \<open>sends\<close> is a history variable:
  every send on \<open>chErrors\<close>, in the order it happened, with the index of the sender.
\<close>

record wait_state =
  goroutines :: "gstate list"
  chErrors :: "error option list"
  pc :: pc
  waitChan :: "error option list"
  logs :: "log_entry list"
  sends :: "(nat \<times> error option) list"

text \<open>
  \<open>Main\<close> is the next step of the main thread, \<open>GoStart j\<close> the first step of
  goroutine \<open>j\<close> (it logs and enters \<open>Serve\<close>), \<open>ServeReturns j err\<close> the rest of
  goroutine \<open>j\<close>: \<open>srv.Serve()\<close> returns \<open>err\<close>, the goroutine converts it and sends
  it.  A step that cannot be taken (a receive on the empty channel, a send on the
  full one, a goroutine that is not there) is \<open>None\<close>.  \<open>n\<close> is \<open>len(s.servers)\<close>, the
  capacity of \<open>chErrors\<close>.  The assignment of \<open>srv.srv.Handler\<close> in the spawning loop
  touches nothing these threads read and is left out; the send on the channel of the
  caller of \<open>Wait\<close> is taken to find its receiver.
\<close>

datatype event = Main | GoStart nat | ServeReturns nat "error option"

fun step :: "nat \<Rightarrow> event \<Rightarrow> wait_state \<Rightarrow> wait_state option" where
  "step n Main s =
     (case pc s of
        Spawning k \<Rightarrow>
          if k < n
          then Some (s\<lparr>goroutines := (goroutines s)[k := Spawned], pc := Spawning (Suc k)\<rparr>)
          else Some (s\<lparr>pc := Receiving 0\<rparr>)
      | Receiving i \<Rightarrow>
          if i < n
          then (case chErrors s of
                  [] \<Rightarrow> None
                | err # rest \<Rightarrow>
                    if err \<noteq> None
                    then Some (s\<lparr>chErrors := rest, pc := ServeAPIReturned err\<rparr>)
                    else Some (s\<lparr>chErrors := rest, pc := Receiving (Suc i)\<rparr>))
          else Some (s\<lparr>pc := ServeAPIReturned None\<rparr>)
      | ServeAPIReturned err \<Rightarrow>
          if err \<noteq> None
          then Some (s\<lparr>logs := logs s @ [Logf ErrorLevel ''ServeAPI error: %v'' [E (the err)]],
                       waitChan := waitChan s @ [err], pc := WaitReturned\<rparr>)
          else Some (s\<lparr>waitChan := waitChan s @ [None], pc := WaitReturned\<rparr>)
      | WaitReturned \<Rightarrow> None)"
| "step n (GoStart j) s =
     (if j < n \<and> goroutines s ! j = Spawned
      then Some (s\<lparr>goroutines := (goroutines s)[j := Serving],
                   logs := logs s @ [Logf InfoLevel ''API listen on %s'' [ListenerAddr j]]\<rparr>)
      else None)"
| "step n (ServeReturns j err) s =
     (if j < n \<and> goroutines s ! j = Serving \<and> length (chErrors s) < n
      then Some (s\<lparr>goroutines := (goroutines s)[j := Exited],
                   chErrors := chErrors s @ [goroutine_err err],
                   sends := sends s @ [(j, goroutine_err err)]\<rparr>)
      else None)"

fun run :: "nat \<Rightarrow> event list \<Rightarrow> wait_state \<Rightarrow> wait_state option" where
  "run n [] s = Some s"
| "run n (e # es) s = (case step n e s of None \<Rightarrow> None | Some s' \<Rightarrow> run n es s')"

definition init :: "nat \<Rightarrow> wait_state" where
  "init n = \<lparr>goroutines = replicate n NotStarted, chErrors = [], pc = Spawning 0,
             waitChan = [], logs = [], sends = []\<rparr>"




text \<open>
  The completions of a schedule: which goroutine's \<open>Serve\<close> returned what, in the order
  the goroutines sent on \<open>chErrors\<close>.
\<close>

fun completions :: "event list \<Rightarrow> (nat \<times> error option) list" where
  "completions [] = []"
| "completions (ServeReturns j err # es) = (j, err) # completions es"
| "completions (Main # es) = completions es"
| "completions (GoStart j # es) = completions es"



definition closing_schedule :: "event list" where
  "closing_schedule =
     [Main, Main, Main, GoStart 1, GoStart 0,
      ServeReturns 0 (Some (Errorf ''accept tcp [::]:2375: use of closed network connection'')),
      Main,
      ServeReturns 1 (Some (Errorf ''accept unix: invalid argument'')), Main, Main]"

definition clean_schedule :: "event list" where
  "clean_schedule =
     [Main, Main, GoStart 0,
      ServeReturns 0 (Some (Errorf ''accept tcp [::]:2375: use of closed network connection'')),
      Main, Main, Main]"

subsection \<open>The invariant of the transition system\<close>

text \<open>
  \<open>delivered n s r\<close>: the main thread is entitled to the result \<open>r\<close>.  For nil, all
  \<open>n\<close> values were sent, all were nil and all were received; for an error, it is the first
  non-nil value sent and what was sent after it is still in the buffer.
\<close>

definition delivered :: "nat \<Rightarrow> wait_state \<Rightarrow> error option \<Rightarrow> bool" where
  "delivered n s r =
     (case r of
        None \<Rightarrow> map snd (sends s) = replicate n None \<and> chErrors s = []
      | Some e \<Rightarrow> (\<exists>i<n. map snd (sends s) = replicate i None @ Some e # chErrors s))"

text \<open>The goroutines that have sent their value.\<close>

definition exited :: "nat \<Rightarrow> gstate list \<Rightarrow> nat set" where
  "exited n gs = {j. j < n \<and> gs ! j = Exited}"

text \<open>
  What holds at each program point of the main thread: while spawning, nothing has been
  received and the goroutines from \<open>k\<close> on do not exist; while receiving, \<open>i\<close> nil values
  have been taken from the channel; nothing is sent on \<open>waitChan\<close> before \<open>serveAPI\<close>
  has returned, and exactly its result afterwards.
\<close>

definition pc_inv :: "nat \<Rightarrow> wait_state \<Rightarrow> bool" where
  "pc_inv n s =
     (case pc s of
         Spawning k \<Rightarrow>
           k \<le> n \<and> (\<forall>j<n. k \<le> j \<longrightarrow> goroutines s ! j = NotStarted) \<and>
           chErrors s = map snd (sends s) \<and> waitChan s = []
       | Receiving i \<Rightarrow>
           i \<le> n \<and> map snd (sends s) = replicate i None @ chErrors s \<and> waitChan s = []
       | ServeAPIReturned r \<Rightarrow> waitChan s = [] \<and> delivered n s r
       | WaitReturned \<Rightarrow> (\<exists>r. waitChan s = [r] \<and> delivered n s r))"

text \<open>
  Every goroutine sends at most once, exactly the exited ones have sent, and every value
  sent has passed the listener-closed conversion.
\<close>

definition wait_inv :: "nat \<Rightarrow> wait_state \<Rightarrow> bool" where
  "wait_inv n s =
     (length (goroutines s) = n \<and>
      distinct (map fst (sends s)) \<and>
      set (map fst (sends s)) = exited n (goroutines s) \<and>
      (\<forall>v \<in> set (map snd (sends s)). goroutine_err v = v) \<and>
      pc_inv n s)"

section \<open>The server, its routes and the dispatch adapter\<close>

text \<open>
  An incoming \<open>*http.Request\<close>, as far as the server reads it: \<open>r.Method\<close>,
  \<open>r.URL.Path\<close>, the \<open>User-Agent\<close> header, and what \<open>mux.Vars(r)\<close> answers (a Go map, nil
  being \<open>None\<close>).
\<close>

record request =
  reqMethod :: string
  URLPath :: string
  UserAgent :: string
  Vars :: "(string \<rightharpoonup> string) option"

text \<open>
  What a handler does to its \<open>http.ResponseWriter\<close> and to the log, in order.  The
  request-scoped context is the list of its key/value pairs, newest first.
\<close>

datatype effect = WriteHeader nat | Write string | Logged log_entry

datatype ctx_key = UAStringKey

type_synonym ctx = "(ctx_key \<times> string) list"

definition Background :: ctx where
  "Background = []"

definition WithValue :: "ctx \<Rightarrow> ctx_key \<Rightarrow> string \<Rightarrow> ctx" where
  "WithValue parent k v = (k, v) # parent"

text \<open>
  \<open>http.HandlerFunc\<close> and \<open>httputils.APIFunc\<close>.  An \<open>APIFunc\<close> takes the context, the
  request and the path variables, and returns its error (nil is \<open>None\<close>) next to what it
  did to the writer.
\<close>

type_synonym HandlerFunc = "request \<Rightarrow> effect list"

type_synonym APIFunc = "ctx \<Rightarrow> request \<Rightarrow> (string \<rightharpoonup> string) option \<Rightarrow> effect list \<times> error option"

text \<open>
  \<open>router.Route\<close> with its three methods, and \<open>router.Router\<close>, of which the server
  only calls \<open>Routes()\<close>.
\<close>

record Route =
  Method :: string
  Path :: string
  Handler :: APIFunc

type_synonym Router = "Route list"

text \<open>
  The router of gorilla/mux as the list of its routes, in the order they were added,
  and its \<open>NotFoundHandler\<close> field (nil is \<open>None\<close>).  A route is the template given to
  \<open>Path\<close>, the methods given to \<open>Methods\<close> (none when \<open>Methods\<close> was not called) and the
  handler given to \<open>Handler\<close> or \<open>HandleFunc\<close>.
\<close>

record mux_Route =
  tpl :: string
  methods :: "string list"
  handler :: HandlerFunc

record mux_Router =
  routes :: "mux_Route list"
  NotFoundHandler :: "HandlerFunc option"

definition NewRouter :: mux_Router where
  "NewRouter = \<lparr>routes = [], NotFoundHandler = None\<rparr>"

text \<open>\<open>m.Path(t).Methods(meth).Handler(f)\<close> and \<open>m.HandleFunc(t, f)\<close>: one more route.\<close>

definition PathMethodsHandler :: "mux_Router \<Rightarrow> string \<Rightarrow> string \<Rightarrow> HandlerFunc \<Rightarrow> mux_Router" where
  "PathMethodsHandler m t meth f =
     m\<lparr>routes := routes m @ [\<lparr>tpl = t, methods = [meth], handler = f\<rparr>]\<rparr>"

definition HandleFunc :: "mux_Router \<Rightarrow> string \<Rightarrow> HandlerFunc \<Rightarrow> mux_Router" where
  "HandleFunc m t f = m\<lparr>routes := routes m @ [\<lparr>tpl = t, methods = [], handler = f\<rparr>]\<rparr>"

text \<open>
  \<open>Config\<close>, \<open>HTTPServer\<close> and \<open>Server\<close>.  A listener is the handle of a \<open>net.Listener\<close>:
  two servers may hold the same one.  The \<open>*http.Server\<close> of an \<open>HTTPServer\<close> is its
  address; the TLS configuration is not read by the code modelled here.  The field \<open>l\<close> of
  the source is \<open>listener\<close>.  \<open>routerSwapper\<close> is the router the swapper holds, \<open>None\<close>
  while the pointer is nil.
\<close>

record Config =
  Logging :: bool
  EnableCors :: bool
  CorsHeaders :: string
  Version :: string
  SocketGroup :: string

record HTTPServer =
  srvAddr :: string
  listener :: nat

record Server =
  cfg :: Config
  servers :: "HTTPServer list"
  routers :: "Router list"
  routerSwapper :: "mux_Router option"
  middlewares :: "(APIFunc \<Rightarrow> APIFunc) list"

definition New :: "Config \<Rightarrow> Server" where
  "New c = \<lparr>cfg = c, servers = [], routers = [], routerSwapper = None, middlewares = []\<rparr>"

definition UseMiddleware :: "Server \<Rightarrow> (APIFunc \<Rightarrow> APIFunc) \<Rightarrow> Server" where
  "UseMiddleware s m = s\<lparr>middlewares := middlewares s @ [m]\<rparr>"

fun Accept :: "Server \<Rightarrow> string \<Rightarrow> nat list \<Rightarrow> Server" where
  "Accept s addr [] = s"
| "Accept s addr (lis # listeners) =
     Accept (s\<lparr>servers := servers s @ [\<lparr>srvAddr = addr, listener = lis\<rparr>]\<rparr>) addr listeners"

text \<open>
  The functions the server calls whose code is in other files: the method
  \<open>handlerWithGlobalMiddlewares\<close> of the server, \<open>httputils.GetHTTPErrorStatusCode\<close>,
  \<open>httputils.MakeErrorHandler\<close> and \<open>profilerSetup\<close>.  They are parameters of the model.
\<close>

record externals =
  handlerWithGlobalMiddlewares :: "Server \<Rightarrow> APIFunc \<Rightarrow> APIFunc"
  GetHTTPErrorStatusCode :: "error \<Rightarrow> nat"
  MakeErrorHandler :: "error \<Rightarrow> HandlerFunc"
  profilerSetup :: "mux_Router \<Rightarrow> mux_Router"

definition versionMatcher :: string where
  "versionMatcher = ''/v{version:[0-9.]+}''"

definition StatusInternalServerError :: nat where
  "StatusInternalServerError = 500"

text \<open>
  \<open>makeHTTPHandler\<close>.  \<open>handleError\<close> is the body of its \<open>if err != nil\<close>: the status code
  chooses the format of the log line, then the error handler writes the response.
\<close>

definition handleError :: "externals \<Rightarrow> request \<Rightarrow> error \<Rightarrow> effect list" where
  "handleError x r err =
     (let statusCode = GetHTTPErrorStatusCode x err;
          errFormat = (if statusCode = StatusInternalServerError then ''%+v'' else ''%v'')
      in [Logged (Logf ErrorLevel (''Handler for %s %s returned error: '' @ errFormat)
                    [S (reqMethod r), S (URLPath r), E err])]
         @ MakeErrorHandler x err r)"

definition makeHTTPHandler :: "externals \<Rightarrow> Server \<Rightarrow> APIFunc \<Rightarrow> HandlerFunc" where
  "makeHTTPHandler x s h =
     (\<lambda>r. let c = WithValue Background UAStringKey (UserAgent r);
              handlerFunc = handlerWithGlobalMiddlewares x s h;
              vars = (if Vars r = None then Some Map.empty else Vars r)
          in case handlerFunc c r vars of
               (out, None) \<Rightarrow> out
             | (out, Some err) \<Rightarrow> out @ handleError x r err)"

text \<open>
  \<open>createMux\<close>: the router and the debug lines logged while building it.  The inner loop
  runs over the routes of one router, the outer loop over \<open>s.routers\<close>.
\<close>

fun register_routes ::
  "externals \<Rightarrow> Server \<Rightarrow> Route list \<Rightarrow> mux_Router \<times> log_entry list \<Rightarrow> mux_Router \<times> log_entry list"
where
  "register_routes x s [] (m, lg) = (m, lg)"
| "register_routes x s (r # rs) (m, lg) =
     (let f = makeHTTPHandler x s (Handler r);
          lg1 = lg @ [Logf DebugLevel ''Registering %s, %s'' [S (Method r), S (Path r)]];
          m1 = PathMethodsHandler m (versionMatcher @ Path r) (Method r) f;
          m2 = PathMethodsHandler m1 (Path r) (Method r) f
      in register_routes x s rs (m2, lg1))"

fun register_routers ::
  "externals \<Rightarrow> Server \<Rightarrow> Router list \<Rightarrow> mux_Router \<times> log_entry list \<Rightarrow> mux_Router \<times> log_entry list"
where
  "register_routers x s [] (m, lg) = (m, lg)"
| "register_routers x s (apiRouter # rest) (m, lg) =
     register_routers x s rest (register_routes x s apiRouter (m, lg))"

definition createMux :: "externals \<Rightarrow> Server \<Rightarrow> mux_Router \<times> log_entry list" where
  "createMux x s =
     (let (m, lg) = register_routers x s (routers s)
                      (NewRouter, [Logv DebugLevel [S ''Registering routers'']]);
          err = NewRequestNotFoundError (Errorf ''page not found'');
          notFoundHandler = MakeErrorHandler x err;
          m1 = HandleFunc m (versionMatcher @ ''/{path:.*}'') notFoundHandler
      in (m1\<lparr>NotFoundHandler := Some notFoundHandler\<rparr>, lg))"

text \<open>
  \<open>InitRouter\<close>, \<open>DisableProfiler\<close> and \<open>EnableProfiler\<close>, with the swapper as the router
  it holds.  The two reloads call \<open>Swap\<close> on \<open>s.routerSwapper\<close>, a nil pointer before
  \<open>InitRouter\<close>: that panic is \<open>None\<close>.
\<close>

definition InitRouter :: "externals \<Rightarrow> Server \<Rightarrow> bool \<Rightarrow> Router list \<Rightarrow> Server" where
  "InitRouter x s enableProfiler rs =
     (let s1 = s\<lparr>routers := routers s @ rs\<rparr>;
          m = fst (createMux x s1);
          m1 = (if enableProfiler then profilerSetup x m else m)
      in s1\<lparr>routerSwapper := Some m1\<rparr>)"

definition DisableProfiler :: "externals \<Rightarrow> Server \<Rightarrow> Server option" where
  "DisableProfiler x s =
     (if routerSwapper s = None then None
      else Some (s\<lparr>routerSwapper := Some (fst (createMux x s))\<rparr>))"

definition EnableProfiler :: "externals \<Rightarrow> Server \<Rightarrow> Server option" where
  "EnableProfiler x s =
     (let m = profilerSetup x (fst (createMux x s))
      in if routerSwapper s = None then None else Some (s\<lparr>routerSwapper := Some m\<rparr>))"

text \<open>
  The routes of all registered routers, in the order \<open>createMux\<close> visits them.
\<close>

definition allRoutes :: "Server \<Rightarrow> Route list" where
  "allRoutes s = concat (routers s)"

text \<open>
  Modelled from the spec: how the built router picks the handler of a request.  The
  matching of gorilla/mux is not among the sources; the spec (sections 3, 4.1 and 4.4)
  has the routes tried in registration order, the first match winning, and the not-found
  handler answering when no route matches.  A route matches when its template matches
  the path and, if it names methods, the request's method is one of them.  The matching
  of a template against a path is the parameter \<open>pm\<close>.  \<open>None\<close> is the library's own
  plain 404, used when no not-found handler is installed.
\<close>

definition route_matches :: "(string \<Rightarrow> string \<Rightarrow> bool) \<Rightarrow> mux_Route \<Rightarrow> request \<Rightarrow> bool" where
  "route_matches pm e r =
     (pm (tpl e) (URLPath r) \<and> (methods e = [] \<or> reqMethod r \<in> set (methods e)))"

definition resolve :: "(string \<Rightarrow> string \<Rightarrow> bool) \<Rightarrow> mux_Router \<Rightarrow> request \<Rightarrow> HandlerFunc option" where
  "resolve pm m r =
     (case find (\<lambda>e. route_matches pm e r) (routes m) of
        Some e \<Rightarrow> Some (handler e)
      | None \<Rightarrow> NotFoundHandler m)"

section \<open>\<open>Close\<close>\<close>

text \<open>
  \<open>Close\<close> runs over \<open>s.servers\<close> and closes the listener of each; an error is logged and
  the loop goes on.  \<open>net.Listener.Close\<close> is the parameter \<open>lc\<close>: given the handle and
  the state of all listeners it returns its error and the new state.  \<open>close_calls\<close> is a
  history variable: every call of \<open>lc\<close> with what it returned.
\<close>

record 'w close_state =
  world :: 'w
  close_log :: "log_entry list"
  close_calls :: "(nat \<times> error option) list"

fun Close_loop ::
  "(nat \<Rightarrow> 'w \<Rightarrow> error option \<times> 'w) \<Rightarrow> HTTPServer list \<Rightarrow> 'w close_state \<Rightarrow> 'w close_state"
where
  "Close_loop lc [] st = st"
| "Close_loop lc (srv # rest) st =
     (let (err, w) = lc (listener srv) (world st);
          st1 = st\<lparr>world := w, close_calls := close_calls st @ [(listener srv, err)]\<rparr>;
          st2 = (if err \<noteq> None
                 then st1\<lparr>close_log := close_log st1 @ [Logv ErrorLevel [E (the err)]]\<rparr>
                 else st1)
      in Close_loop lc rest st2)"

definition Close :: "(nat \<Rightarrow> 'w \<Rightarrow> error option \<times> 'w) \<Rightarrow> Server \<Rightarrow> 'w close_state \<Rightarrow> 'w close_state" where
  "Close lc s st = Close_loop lc (servers s) st"

section \<open>An example server\<close>

text \<open>
  An instance of the parameters, for the examples: no middleware, status 404 for a
  request-not-found error and 500 for any other, an error handler that writes the status
  and the message, no profiler routes.  The server has one router with the routes
  \<open>GET /info\<close>, whose handler answers, and \<open>POST /fail\<close>, whose handler returns an error.
  The example matcher lets a template match the path equal to it.
\<close>

definition example_externals :: externals where
  "example_externals =
     \<lparr>handlerWithGlobalMiddlewares = (\<lambda>s h. h),
      GetHTTPErrorStatusCode = (\<lambda>e. case e of NewRequestNotFoundError _ \<Rightarrow> 404 | Errorf _ \<Rightarrow> 500),
      MakeErrorHandler = (\<lambda>e r. [WriteHeader (case e of NewRequestNotFoundError _ \<Rightarrow> 404 | Errorf _ \<Rightarrow> 500),
                                 Write (Error e)]),
      profilerSetup = (\<lambda>m. m)\<rparr>"

definition info_handler :: APIFunc where
  "info_handler = (\<lambda>c r vars. ([WriteHeader 200, Write ''{}''], None))"

definition fail_handler :: APIFunc where
  "fail_handler = (\<lambda>c r vars. ([], Some (Errorf ''driver failed'')))"

definition example_server :: Server where
  "example_server =
     \<lparr>cfg = \<lparr>Logging = False, EnableCors = False, CorsHeaders = [], Version = ''1.26'',
              SocketGroup = ''docker''\<rparr>,
      servers = [\<lparr>srvAddr = ''tcp'', listener = 3\<rparr>, \<lparr>srvAddr = ''tcp'', listener = 3\<rparr>,
                 \<lparr>srvAddr = ''unix'', listener = 5\<rparr>],
      routers = [[\<lparr>Method = ''GET'', Path = ''/info'', Handler = info_handler\<rparr>,
                  \<lparr>Method = ''POST'', Path = ''/fail'', Handler = fail_handler\<rparr>]],
      routerSwapper = None,
      middlewares = []\<rparr>"

definition exact_match :: "string \<Rightarrow> string \<Rightarrow> bool" where
  "exact_match t p = (t = p)"

definition request_of :: "string \<Rightarrow> string \<Rightarrow> request" where
  "request_of meth p = \<lparr>reqMethod = meth, URLPath = p, UserAgent = ''curl'', Vars = None\<rparr>"

text \<open>
  An example of \<open>net.Listener.Close\<close>: the state is the list of closed handles, and
  closing a closed listener returns an error.
\<close>

definition close_once :: "nat \<Rightarrow> nat list \<Rightarrow> error option \<times> nat list" where
  "close_once h closed =
     (if h \<in> set closed then (Some (Errorf ''close tcp: use of closed network connection''), closed)
      else (None, h # closed))"

section \<open>The router swapper under concurrent reloads\<close>

text \<open>
  The tail of \<open>createMux\<close>, after its loops: the not-found handler becomes the handler
  of the wildcard route and the \<open>NotFoundHandler\<close> of the router.
\<close>

definition install_not_found :: "externals \<Rightarrow> mux_Router \<Rightarrow> mux_Router" where
  "install_not_found x m =
     (let err = NewRequestNotFoundError (Errorf ''page not found'');
          notFoundHandler = MakeErrorHandler x err;
          m1 = HandleFunc m (versionMatcher @ ''/{path:.*}'') notFoundHandler
      in m1\<lparr>NotFoundHandler := Some notFoundHandler\<rparr>)"

text \<open>
  Modelled from the spec: the router swapper, whose source file is not among the
  sources.  The spec (section 4.5) has \<open>serve\<close> read the reference to the current routing
  table under the lock and dispatch through the table it read, and \<open>swap\<close> replace the
  reference under the lock.

  Routers are objects in a heap, addressed by their index; \<open>router\<close> is the address the
  swapper holds and \<open>mu\<close> its lock.  The administrative thread runs \<open>DisableProfiler\<close> or
  \<open>EnableProfiler\<close> (the flag says which) step by step as the source has them:
  \<open>mux.NewRouter()\<close> allocates a router, each iteration of the loops of \<open>createMux\<close>
  adds the two routes of one registered route to it, the tail of \<open>createMux\<close> installs
  the not-found handler, \<open>profilerSetup\<close> adds its routes, and only then \<open>Swap\<close> takes the
  lock, stores the address and releases the lock.  A serving thread takes the lock,
  reads the address, releases the lock and dispatches through the router at the address
  it read; every read of that router while dispatching is recorded in \<open>observed\<close>, with
  the thread that read.
\<close>

datatype admin_pc =
  AIdle
  | ABuild nat "Route list" bool
  | AProfiler nat
  | ASwapLock nat
  | ASwapAssign nat
  | ASwapUnlock

datatype serve_pc = SIdle | SLocked | SRead nat | SDispatch nat

record swap_state =
  heap :: "mux_Router list"
  router :: nat
  mu :: bool
  admin :: admin_pc
  serving :: "serve_pc list"
  observed :: "(nat \<times> mux_Router) list"

datatype swap_event = Reload bool | Admin | Serve nat | ServeDone nat

fun swap_step :: "externals \<Rightarrow> Server \<Rightarrow> swap_event \<Rightarrow> swap_state \<Rightarrow> swap_state option" where
  "swap_step x s (Reload b) st =
     (case admin st of
        AIdle \<Rightarrow> Some (st\<lparr>heap := heap st @ [NewRouter],
                           admin := ABuild (length (heap st)) (allRoutes s) b\<rparr>)
      | _ \<Rightarrow> None)"
| "swap_step x s Admin st =
     (case admin st of
        AIdle \<Rightarrow> None
      | ABuild a [] b \<Rightarrow>
          Some (st\<lparr>heap := (heap st)[a := install_not_found x (heap st ! a)],
                   admin := (if b then AProfiler a else ASwapLock a)\<rparr>)
      | ABuild a (r # rs) b \<Rightarrow>
          Some (st\<lparr>heap := (heap st)[a := fst (register_routes x s [r] (heap st ! a, []))],
                   admin := ABuild a rs b\<rparr>)
      | AProfiler a \<Rightarrow>
          Some (st\<lparr>heap := (heap st)[a := profilerSetup x (heap st ! a)], admin := ASwapLock a\<rparr>)
      | ASwapLock a \<Rightarrow> if mu st then None else Some (st\<lparr>mu := True, admin := ASwapAssign a\<rparr>)
      | ASwapAssign a \<Rightarrow> Some (st\<lparr>router := a, admin := ASwapUnlock\<rparr>)
      | ASwapUnlock \<Rightarrow> Some (st\<lparr>mu := False, admin := AIdle\<rparr>))"
| "swap_step x s (Serve t) st =
     (if t < length (serving st)
      then (case serving st ! t of
              SIdle \<Rightarrow> if mu st then None
                       else Some (st\<lparr>mu := True, serving := (serving st)[t := SLocked]\<rparr>)
            | SLocked \<Rightarrow> Some (st\<lparr>serving := (serving st)[t := SRead (router st)]\<rparr>)
            | SRead a \<Rightarrow> Some (st\<lparr>mu := False, serving := (serving st)[t := SDispatch a]\<rparr>)
            | SDispatch a \<Rightarrow> Some (st\<lparr>observed := observed st @ [(t, heap st ! a)]\<rparr>))
      else None)"
| "swap_step x s (ServeDone t) st =
     (if t < length (serving st)
      then (case serving st ! t of
              SDispatch a \<Rightarrow> Some (st\<lparr>serving := (serving st)[t := SIdle]\<rparr>)
            | _ \<Rightarrow> None)
      else None)"

fun swap_run :: "externals \<Rightarrow> Server \<Rightarrow> swap_event list \<Rightarrow> swap_state \<Rightarrow> swap_state option" where
  "swap_run x s [] st = Some st"
| "swap_run x s (e # es) st =
     (case swap_step x s e st of None \<Rightarrow> None | Some st' \<Rightarrow> swap_run x s es st')"

text \<open>
  The state \<open>InitRouter\<close> leaves: one router \<open>T0\<close>, held by the swapper, \<open>k\<close> idle serving
  threads.
\<close>

definition swap_init :: "mux_Router \<Rightarrow> nat \<Rightarrow> swap_state" where
  "swap_init T0 k = \<lparr>heap = [T0], router = 0, mu = False, admin = AIdle,
                       serving = replicate k SIdle, observed = []\<rparr>"

text \<open>
  The complete tables: the one \<open>InitRouter\<close> installed, the one \<open>createMux\<close> builds, and
  that one with the profiler routes.
\<close>

definition complete_tables :: "externals \<Rightarrow> Server \<Rightarrow> mux_Router \<Rightarrow> mux_Router set" where
  "complete_tables x s T0 = {T0, fst (createMux x s), profilerSetup x (fst (createMux x s))}"

text \<open>
  The invariant.  While the administrative thread builds a router, that router is the
  last of the heap and nobody else holds its address: the swapper and the serving
  threads hold addresses below \<open>published\<close>, and every router below \<open>published\<close> is
  complete.
\<close>

definition building :: "swap_state \<Rightarrow> bool" where
  "building st = (case admin st of ABuild a rs b \<Rightarrow> True | AProfiler a \<Rightarrow> True | _ \<Rightarrow> False)"

definition published :: "swap_state \<Rightarrow> nat" where
  "published st = (if building st then length (heap st) - 1 else length (heap st))"

definition serve_ok :: "nat \<Rightarrow> serve_pc \<Rightarrow> bool" where
  "serve_ok p c = (case c of SRead a \<Rightarrow> a < p | SDispatch a \<Rightarrow> a < p | _ \<Rightarrow> True)"

definition admin_ok :: "externals \<Rightarrow> Server \<Rightarrow> swap_state \<Rightarrow> bool" where
  "admin_ok x s st =
     (case admin st of
        ABuild a rs b \<Rightarrow>
          Suc a = length (heap st) \<and>
          (\<exists>ds. ds @ rs = allRoutes s \<and> heap st ! a = fst (register_routes x s ds (NewRouter, [])))
      | AProfiler a \<Rightarrow> Suc a = length (heap st) \<and> heap st ! a = fst (createMux x s)
      | ASwapLock a \<Rightarrow> a < length (heap st)
      | ASwapAssign a \<Rightarrow> a < length (heap st)
      | _ \<Rightarrow> True)"

definition swap_inv :: "externals \<Rightarrow> Server \<Rightarrow> mux_Router \<Rightarrow> swap_state \<Rightarrow> bool" where
  "swap_inv x s T0 st =
     (router st < published st \<and>
      (\<forall>a < published st. heap st ! a \<in> complete_tables x s T0) \<and>
      (\<forall>c \<in> set (serving st). serve_ok (published st) c) \<and>
      admin_ok x s st \<and>
      (\<forall>ob \<in> set (observed st). snd ob \<in> complete_tables x s T0))"

text \<open>
  A schedule in which thread 0 reads the address before a reload begins, and dispatches
  while the new router is half built; thread 1 reads the address after the swap.
\<close>

definition reload_schedule :: "swap_event list" where
  "reload_schedule =
     [Serve 0, Serve 0, Serve 0, Reload True, Admin, Serve 0, Admin, Admin, Admin,
      Admin, Admin, Admin, Serve 0, ServeDone 0, Serve 1, Serve 1, Serve 1, Serve 1]"

section \<open>Properties of \<open>serveAPI\<close> and \<open>Wait\<close>\<close>

subsection \<open>The invariant holds in every reachable state\<close>

lemma delivered_update [simp]:
  "delivered n (s\<lparr>logs := lg\<rparr>) r = delivered n s r"
  "delivered n (s\<lparr>waitChan := w\<rparr>) r = delivered n s r"
  "delivered n (s\<lparr>pc := p\<rparr>) r = delivered n s r"
  "delivered n (s\<lparr>goroutines := gs\<rparr>) r = delivered n s r"
  by (simp_all add: delivered_def split: option.splits)

lemma goroutine_err_idem: "goroutine_err (goroutine_err err) = goroutine_err err"
  by (simp add: goroutine_err_def)

lemma exited_update_other:
  "j < length gs \<Longrightarrow> gs ! j \<noteq> Exited \<Longrightarrow> g \<noteq> Exited \<Longrightarrow> exited n (gs[j := g]) = exited n gs"
  by (auto simp: exited_def nth_list_update split: if_splits)

lemma exited_update_Exited:
  "j < n \<Longrightarrow> j < length gs \<Longrightarrow> exited n (gs[j := Exited]) = insert j (exited n gs)"
  by (auto simp: exited_def nth_list_update)

lemma exited_bound: "exited n gs \<subseteq> {..<n}"
  by (auto simp: exited_def)

lemma map_snd_replicate_length: "map snd xs = replicate n v \<Longrightarrow> length xs = n"
  by (metis length_map length_replicate)

lemma map_snd_replicate_tail:
  assumes "map snd xs = replicate n v @ ys" and "length xs \<le> n"
  shows "ys = []"
proof -
  have "length (map snd xs) = n + length ys" using assms(1) by simp
  with assms(2) show ?thesis by simp
qed

lemma inv_init: "wait_inv n (init n)"
  by (simp add: wait_inv_def pc_inv_def init_def exited_def)

lemma inv_length:
  assumes "wait_inv n s" shows "length (sends s) \<le> n"
proof -
  have "length (sends s) = card (set (map fst (sends s)))"
    using assms by (metis wait_inv_def distinct_card length_map)
  also have "\<dots> \<le> card {..<n}"
    using assms exited_bound[of n "goroutines s"] unfolding wait_inv_def
    by (intro card_mono) auto
  finally show ?thesis by simp
qed

lemma inv_all_exited:
  assumes "wait_inv n s" and "length (sends s) = n" and "j < n"
  shows "goroutines s ! j = Exited"
proof -
  have "card (exited n (goroutines s)) = n"
    using assms(1,2) by (metis wait_inv_def distinct_card length_map)
  then have "exited n (goroutines s) = {..<n}"
    using exited_bound[of n "goroutines s"] by (simp add: card_subset_eq)
  with assms(3) show ?thesis by (auto simp: exited_def)
qed

lemma inv_GoStart:
  assumes "wait_inv n s" and "step n (GoStart j) s = Some s'"
  shows "wait_inv n s'"
proof -
  from assms(2) have j: "j < n" "goroutines s ! j = Spawned"
    and s': "s' = s\<lparr>goroutines := (goroutines s)[j := Serving],
                   logs := logs s @ [Logf InfoLevel ''API listen on %s'' [ListenerAddr j]]\<rparr>"
    by (auto split: if_splits)
  have "pc_inv n s'"
    using assms(1) j unfolding wait_inv_def pc_inv_def s'
    by (auto simp: nth_list_update delivered_def split: pc.splits option.splits)
  then show ?thesis
    using assms(1) j unfolding wait_inv_def by (simp add: s' exited_update_other)
qed

lemma inv_ServeReturns:
  assumes "wait_inv n s" and "step n (ServeReturns j err) s = Some s'"
  shows "wait_inv n s'"
proof -
  from assms(2) have j: "j < n" "goroutines s ! j = Serving"
    and s': "s' = s\<lparr>goroutines := (goroutines s)[j := Exited],
                   chErrors := chErrors s @ [goroutine_err err],
                   sends := sends s @ [(j, goroutine_err err)]\<rparr>"
    by (auto split: if_splits)
  have len: "length (goroutines s) = n" using assms(1) by (simp add: wait_inv_def)
  from assms(1) j have fresh: "j \<notin> set (map fst (sends s))"
    unfolding wait_inv_def by (simp add: exited_def)
  have notfull: "length (sends s) \<noteq> n"
    using inv_all_exited[OF assms(1) _ j(1)] j(2) by auto
  have "pc_inv n s'"
  proof (cases "pc s")
    case (Spawning k)
    with assms(1) j len show ?thesis unfolding wait_inv_def pc_inv_def s'
      by (auto simp: nth_list_update)
  next
    case (Receiving i)
    with assms(1) show ?thesis unfolding wait_inv_def pc_inv_def s' by auto
  next
    case (ServeAPIReturned r)
    with assms(1) notfull show ?thesis unfolding wait_inv_def pc_inv_def s' delivered_def
      by (cases r) (auto dest: map_snd_replicate_length)
  next
    case WaitReturned
    with assms(1) notfull show ?thesis unfolding wait_inv_def pc_inv_def s' delivered_def
      by (auto split: option.splits dest: map_snd_replicate_length)
  qed
  then show ?thesis
    using assms(1) j len fresh unfolding wait_inv_def
    by (simp add: s' exited_update_Exited goroutine_err_idem)
qed

lemma inv_Main:
  assumes "wait_inv n s" and "step n Main s = Some s'"
  shows "wait_inv n s'"
proof (cases "pc s")
  case (Spawning k)
  show ?thesis
  proof (cases "k < n")
    case True
    with assms(2) Spawning
    have s': "s' = s\<lparr>goroutines := (goroutines s)[k := Spawned], pc := Spawning (Suc k)\<rparr>"
      by simp
    from assms(1) Spawning True have k: "goroutines s ! k = NotStarted"
      by (simp add: wait_inv_def pc_inv_def)
    have "pc_inv n s'"
      using assms(1) Spawning True unfolding wait_inv_def pc_inv_def s'
      by (simp add: nth_list_update)
    then show ?thesis
      using assms(1) k True unfolding wait_inv_def by (simp add: s' exited_update_other)
  next
    case False
    with assms(2) Spawning have s': "s' = s\<lparr>pc := Receiving 0\<rparr>" by simp
    show ?thesis
      using assms(1) Spawning unfolding wait_inv_def pc_inv_def s' by simp
  qed
next
  case (Receiving i)
  show ?thesis
  proof (cases "i < n")
    case True
    with assms(2) Receiving obtain err rest where ch: "chErrors s = err # rest"
      and s': "s' = (if err \<noteq> None then s\<lparr>chErrors := rest, pc := ServeAPIReturned err\<rparr>
                     else s\<lparr>chErrors := rest, pc := Receiving (Suc i)\<rparr>)"
      by (auto split: list.splits if_splits)
    have "pc_inv n s'"
      using assms(1) Receiving True ch unfolding wait_inv_def pc_inv_def delivered_def s'
      by (auto simp: replicate_app_Cons_same)
    then show ?thesis
      using assms(1) unfolding wait_inv_def by (simp add: s')
  next
    case False
    with assms(1) Receiving have i: "i = n" by (auto simp: wait_inv_def pc_inv_def)
    have "length (sends s) \<le> n" by (rule inv_length[OF assms(1)])
    moreover have "map snd (sends s) = replicate n None @ chErrors s"
      using assms(1) Receiving i by (auto simp: wait_inv_def pc_inv_def)
    ultimately have "chErrors s = []"
      by (intro map_snd_replicate_tail[where xs = "sends s" and n = n and v = None])
    moreover from assms(2) Receiving i have "s' = s\<lparr>pc := ServeAPIReturned None\<rparr>"
      by simp
    ultimately show ?thesis
      using assms(1) Receiving i unfolding wait_inv_def pc_inv_def delivered_def
      by (simp add: goroutine_err_def)
  qed
next
  case (ServeAPIReturned r)
  with assms(2) have
    s': "s' = s\<lparr>logs := (if r \<noteq> None
                          then logs s @ [Logf ErrorLevel ''ServeAPI error: %v'' [E (the r)]]
                          else logs s),
                  waitChan := waitChan s @ [r], pc := WaitReturned\<rparr>"
    by (cases r) auto
  have "pc_inv n s'"
    using assms(1) ServeAPIReturned unfolding wait_inv_def pc_inv_def s'
    by simp
  then show ?thesis
    using assms(1) unfolding wait_inv_def by (simp add: s')
next
  case WaitReturned
  with assms show ?thesis by simp
qed

lemma inv_step: "wait_inv n s \<Longrightarrow> step n e s = Some s' \<Longrightarrow> wait_inv n s'"
  by (cases e) (auto intro: inv_Main inv_GoStart inv_ServeReturns simp del: step.simps)

lemma inv_run: "wait_inv n s \<Longrightarrow> run n evs s = Some s' \<Longrightarrow> wait_inv n s'"
  by (induction evs arbitrary: s) (auto split: option.splits intro: inv_step simp del: step.simps)

lemma inv_reachable: "run n evs (init n) = Some s \<Longrightarrow> wait_inv n s"
  using inv_run[OF inv_init] .


subsection \<open>The history of sends is the schedule's completions\<close>

lemmas sched_simps = init_def goroutine_err_def closedMsg_def eval_nat_numeral

lemma step_sends:
  "step n e s = Some s' \<Longrightarrow>
   sends s' = sends s @ map (\<lambda>(j, err). (j, goroutine_err err)) (completions [e])"
  by (cases e) (auto split: if_splits pc.splits list.splits)

lemma completions_Cons: "completions (e # es) = completions [e] @ completions es"
  by (cases e) simp_all

lemma run_sends:
  "run n evs s = Some s' \<Longrightarrow>
   sends s' = sends s @ map (\<lambda>(j, err). (j, goroutine_err err)) (completions evs)"
proof (induction evs arbitrary: s)
  case Nil
  then show ?case by simp
next
  case (Cons e es)
  from Cons.prems obtain s1 where 1: "step n e s = Some s1" and 2: "run n es s1 = Some s'"
    by (auto split: option.splits simp del: step.simps)
  show ?case
    using step_sends[OF 1] Cons.IH[OF 2] completions_Cons[of e es] by simp
qed







lemma delivered_Some_mem:
  assumes "delivered n s (Some e)"
  shows "Some e \<in> set (map snd (sends s))"
proof -
  from assms obtain i where "map snd (sends s) = replicate i None @ Some e # chErrors s"
    by (auto simp: delivered_def)
  then show ?thesis by (metis in_set_conv_decomp)
qed

lemma run_append:
  "run n (as @ bs) s = (case run n as s of None \<Rightarrow> None | Some s1 \<Rightarrow> run n bs s1)"
  by (induction as arbitrary: s) (auto split: option.splits simp del: step.simps)

lemma step_after_return:
  assumes "pc s = WaitReturned" and "step n e s = Some s'"
  shows "pc s' = WaitReturned \<and> waitChan s' = waitChan s"
  using assms by (cases e) (auto split: if_splits)

lemma step_into_return:
  assumes "pc s \<noteq> WaitReturned" and "step n e s = Some s'" and "pc s' = WaitReturned"
  shows "e = Main \<and> (\<exists>r. pc s = ServeAPIReturned r \<and> waitChan s' = waitChan s @ [r])"
  using assms by (cases e) (auto split: if_splits pc.splits list.splits)




text \<open>
  Claim C4.  Every goroutine sends on \<open>chErrors\<close> nil when its \<open>Serve\<close> returned nil or an
  error whose message contains \<open>use of closed network connection\<close>, and the error
  itself otherwise.  An error that \<open>Wait\<close> sends on \<open>waitChan\<close> is therefore never a
  listener-closed one, and it is the unchanged error that some goroutine's \<open>Serve\<close>
  returned.
\<close>

theorem listener_closed_not_surfaced:
  assumes "run n evs (init n) = Some s"
  shows "map snd (sends s) =
           map (\<lambda>(j, err). case err of None \<Rightarrow> None
                  | Some e \<Rightarrow> if Contains (Error e) closedMsg then None else Some e)
               (completions evs) \<and>
         (\<forall>e. Some e \<in> set (waitChan s) \<longrightarrow>
               \<not> Contains (Error e) closedMsg \<and> (\<exists>j. (j, Some e) \<in> set (completions evs)))"
proof -
  have conv: "goroutine_err err =
        (case err of None \<Rightarrow> None
         | Some e \<Rightarrow> if Contains (Error e) closedMsg then None else Some e)" for err
    by (simp add: goroutine_err_def split: option.splits)
  have S: "sends s = map (\<lambda>(j, err). (j, goroutine_err err)) (completions evs)"
    using run_sends[OF assms] by (simp add: init_def)
  have 1: "map snd (sends s) =
           map (\<lambda>(j, err). case err of None \<Rightarrow> None
                  | Some e \<Rightarrow> if Contains (Error e) closedMsg then None else Some e)
               (completions evs)"
    unfolding S by (simp add: case_prod_beta comp_def conv)
  have I: "wait_inv n s" using assms by (rule inv_reachable)
  have 2: "\<not> Contains (Error e) closedMsg \<and> (\<exists>j. (j, Some e) \<in> set (completions evs))"
    if w: "Some e \<in> set (waitChan s)" for e
  proof -
    from I w have "delivered n s (Some e)"
      by (cases "pc s") (auto simp: wait_inv_def pc_inv_def)
    then have "Some e \<in> set (map snd (sends s))" by (rule delivered_Some_mem)
    then obtain j err where c: "(j, err) \<in> set (completions evs)"
      and g: "goroutine_err err = Some e"
      unfolding S by auto
    from g have "err = Some e" "\<not> Contains (Error e) closedMsg"
      by (auto simp: goroutine_err_def split: if_splits)
    with c show ?thesis by auto
  qed
  from 1 2 show ?thesis by blast
qed

theorem listener_closed_not_surfaced_witness:
  "\<exists>s. run 2 closing_schedule (init 2) = Some s \<and>
       map snd (sends s) = [None, Some (Errorf ''accept unix: invalid argument'')] \<and>
       waitChan s = [Some (Errorf ''accept unix: invalid argument'')]"
proof -
  define s where "s = the (run 2 closing_schedule (init 2))"
  have s: "run 2 closing_schedule (init 2) = Some s"
    unfolding s_def by (simp add: closing_schedule_def sched_simps)
  have w: "waitChan s = [Some (Errorf ''accept unix: invalid argument'')]"
    unfolding s_def by (simp add: closing_schedule_def sched_simps)
  have c: "completions closing_schedule =
      [(0, Some (Errorf ''accept tcp [::]:2375: use of closed network connection'')),
       (1, Some (Errorf ''accept unix: invalid argument''))]"
    by (simp add: closing_schedule_def)
  have "map snd (sends s) =
           map (\<lambda>(j, err). case err of None \<Rightarrow> None
                  | Some e \<Rightarrow> if Contains (Error e) closedMsg then None else Some e)
               (completions closing_schedule)"
    by (rule listener_closed_not_surfaced[OF s, THEN conjunct1])
  also have "\<dots> = [None, Some (Errorf ''accept unix: invalid argument'')]"
    unfolding c by (simp add: closedMsg_def)
  finally have "map snd (sends s) = [None, Some (Errorf ''accept unix: invalid argument'')]" .
  then have "run 2 closing_schedule (init 2) = Some s \<and>
       map snd (sends s) = [None, Some (Errorf ''accept unix: invalid argument'')] \<and>
       waitChan s = [Some (Errorf ''accept unix: invalid argument'')]"
    using s w by (intro conjI)
  then show ?thesis by (rule exI[of _ s])
qed

text \<open>
  Claim C10.  Nothing is on \<open>waitChan\<close> before \<open>Wait\<close> has returned.  When it has returned,
  exactly one value is there: the schedule passed through a state in which \<open>serveAPI\<close>
  had returned \<open>r\<close> (an error or nil), the next step of the main thread sent it, and
  \<open>waitChan\<close> holds \<open>r\<close> and nothing else.
\<close>

theorem Wait_sends_exactly_once:
  assumes "run n evs (init n) = Some s"
  shows "(pc s \<noteq> WaitReturned \<longrightarrow> waitChan s = []) \<and>
         (pc s = WaitReturned \<longrightarrow>
            (\<exists>evs1 evs2 s1 r. evs = evs1 @ Main # evs2 \<and> run n evs1 (init n) = Some s1 \<and>
                pc s1 = ServeAPIReturned r \<and> waitChan s = [r]))"
proof -
  have I: "wait_inv n s" using assms by (rule inv_reachable)
  then have A: "pc s \<noteq> WaitReturned \<longrightarrow> waitChan s = []"
    by (cases "pc s") (auto simp: wait_inv_def pc_inv_def)
  have B: "\<exists>evs1 evs2 s1 r. evs = evs1 @ Main # evs2 \<and> run n evs1 (init n) = Some s1 \<and>
                pc s1 = ServeAPIReturned r \<and> waitChan s = [r]"
    if "pc s = WaitReturned"
    using assms that
  proof (induction evs arbitrary: s rule: rev_induct)
    case Nil
    then show ?case by (auto simp: init_def)
  next
    case (snoc e es)
    from snoc.prems(1) obtain s0 where s0: "run n es (init n) = Some s0"
      and st: "step n e s0 = Some s"
      by (auto simp: run_append split: option.splits simp del: step.simps)
    show ?case
    proof (cases "pc s0 = WaitReturned")
      case True
      from snoc.IH[OF s0 True] obtain evs1 evs2 s1 r where
        d: "es = evs1 @ Main # evs2" "run n evs1 (init n) = Some s1"
           "pc s1 = ServeAPIReturned r" "waitChan s0 = [r]"
        by blast
      from step_after_return[OF True st] d(4) have "waitChan s = [r]" by simp
      moreover from d(1) have "es @ [e] = evs1 @ Main # (evs2 @ [e])" by simp
      ultimately show ?thesis using d(2,3) by blast
    next
      case False
      from step_into_return[OF False st snoc.prems(2)] obtain r where
        e: "e = Main" and r: "pc s0 = ServeAPIReturned r" "waitChan s = waitChan s0 @ [r]"
        by blast
      have "wait_inv n s0" using s0 by (rule inv_reachable)
      with r(1) have "waitChan s0 = []" by (simp add: wait_inv_def pc_inv_def)
      with r(2) have "waitChan s = [r]" by simp
      with e r(1) s0 show ?thesis by blast
    qed
  qed
  from A B show ?thesis by blast
qed

theorem Wait_sends_exactly_once_witness:
  "\<exists>s. run 1 clean_schedule (init 1) = Some s \<and> pc s = WaitReturned \<and>
       waitChan s = [None]"
proof -
  define s where "s = the (run 1 clean_schedule (init 1))"
  have s: "run 1 clean_schedule (init 1) = Some s"
    unfolding s_def by (simp add: clean_schedule_def sched_simps)
  have p: "pc s = WaitReturned" and w: "waitChan s = [None]"
    unfolding s_def by (simp_all add: clean_schedule_def sched_simps)
  from Wait_sends_exactly_once[OF s] p have "\<exists>r. waitChan s = [r]" by auto
  with s p w show ?thesis by (intro exI[of _ s]) simp
qed

section \<open>Properties of \<open>createMux\<close>, \<open>makeHTTPHandler\<close> and \<open>Close\<close>\<close>

subsection \<open>The routes \<open>createMux\<close> registers\<close>

lemma register_routes_routes:
  "routes (fst (register_routes x s rs (m, lg))) =
     routes m @ concat (map (\<lambda>r. [\<lparr>tpl = versionMatcher @ Path r, methods = [Method r],
                                     handler = makeHTTPHandler x s (Handler r)\<rparr>,
                                   \<lparr>tpl = Path r, methods = [Method r],
                                     handler = makeHTTPHandler x s (Handler r)\<rparr>]) rs)"
  by (induction rs arbitrary: m lg) (simp_all add: PathMethodsHandler_def Let_def)

lemma register_routes_NotFoundHandler:
  "NotFoundHandler (fst (register_routes x s rs (m, lg))) = NotFoundHandler m"
  by (induction rs arbitrary: m lg) (simp_all add: PathMethodsHandler_def Let_def)

lemma register_routers_routes:
  "routes (fst (register_routers x s rss (m, lg))) =
     routes m @ concat (map (\<lambda>r. [\<lparr>tpl = versionMatcher @ Path r, methods = [Method r],
                                     handler = makeHTTPHandler x s (Handler r)\<rparr>,
                                   \<lparr>tpl = Path r, methods = [Method r],
                                     handler = makeHTTPHandler x s (Handler r)\<rparr>]) (concat rss))"
proof (induction rss arbitrary: m lg)
  case Nil
  then show ?case by simp
next
  case (Cons rs rss)
  obtain m1 lg1 where 1: "register_routes x s rs (m, lg) = (m1, lg1)" by (cases "register_routes x s rs (m, lg)")
  from register_routes_routes[of x s rs m lg] 1 Cons.IH[of m1 lg1]
  show ?case by simp
qed

lemma register_routers_NotFoundHandler:
  "NotFoundHandler (fst (register_routers x s rss (m, lg))) = NotFoundHandler m"
proof (induction rss arbitrary: m lg)
  case Nil
  then show ?case by simp
next
  case (Cons rs rss)
  obtain m1 lg1 where 1: "register_routes x s rs (m, lg) = (m1, lg1)" by (cases "register_routes x s rs (m, lg)")
  from register_routes_NotFoundHandler[of x s rs m lg] 1 Cons.IH[of m1 lg1]
  show ?case by simp
qed

lemma createMux_routes:
  "routes (fst (createMux x s)) =
     concat (map (\<lambda>r. [\<lparr>tpl = versionMatcher @ Path r, methods = [Method r],
                          handler = makeHTTPHandler x s (Handler r)\<rparr>,
                        \<lparr>tpl = Path r, methods = [Method r],
                          handler = makeHTTPHandler x s (Handler r)\<rparr>]) (allRoutes s))
     @ [\<lparr>tpl = versionMatcher @ ''/{path:.*}'', methods = [],
         handler = MakeErrorHandler x (NewRequestNotFoundError (Errorf ''page not found''))\<rparr>]"
proof -
  obtain m lg where 1: "register_routers x s (routers s)
       (NewRouter, [Logv DebugLevel [S ''Registering routers'']]) = (m, lg)"
    by (cases "register_routers x s (routers s) (NewRouter, [Logv DebugLevel [S ''Registering routers'']])")
  from register_routers_routes[of x s "routers s" NewRouter "[Logv DebugLevel [S ''Registering routers'']]"] 1
  show ?thesis
    by (simp add: createMux_def HandleFunc_def NewRouter_def allRoutes_def Let_def)
qed

lemma createMux_NotFoundHandler:
  "NotFoundHandler (fst (createMux x s)) =
     Some (MakeErrorHandler x (NewRequestNotFoundError (Errorf ''page not found'')))"
  by (simp add: createMux_def HandleFunc_def Let_def split: prod.splits)

lemma nth_concat_pairs:
  "i < length rs \<Longrightarrow>
   concat (map (\<lambda>r. [a r, b r]) rs) ! (2 * i) = a (rs ! i) \<and>
   concat (map (\<lambda>r. [a r, b r]) rs) ! (2 * i + 1) = b (rs ! i)"
proof (induction rs arbitrary: i)
  case Nil
  then show ?case by simp
next
  case (Cons r rs)
  show ?case
  proof (cases i)
    case 0
    then show ?thesis by simp
  next
    case (Suc k)
    with Cons.prems have "k < length rs" by simp
    from Cons.IH[OF this] Suc show ?thesis by simp
  qed
qed

lemma length_concat_pairs: "length (concat (map (\<lambda>r. [a r, b r]) rs)) = 2 * length rs"
  by (induction rs) simp_all

lemma find_first:
  "k < length xs \<Longrightarrow> P (xs ! k) \<Longrightarrow> \<forall>j<k. \<not> P (xs ! j) \<Longrightarrow> find P xs = Some (xs ! k)"
proof (induction xs arbitrary: k)
  case Nil
  then show ?case by simp
next
  case (Cons y ys)
  show ?case
  proof (cases k)
    case 0
    with Cons.prems show ?thesis by simp
  next
    case (Suc k')
    with Cons.prems have "\<not> P y" by auto
    moreover have "find P ys = Some (ys ! k')"
      using Cons.prems Suc by (intro Cons.IH) auto
    ultimately show ?thesis using Suc by simp
  qed
qed

lemma find_snoc:
  "find P xs = None \<Longrightarrow> find P (xs @ [y]) = (if P y then Some y else None)"
  by (induction xs) (auto split: if_splits)

lemma find_none:
  "\<forall>j<length xs. \<not> P (xs ! j) \<Longrightarrow> find P xs = None"
  by (auto simp: find_None_iff in_set_conv_nth)

text \<open>
  Claim C2.  For the \<open>i\<close>-th route \<open>R\<close> of the registered routers, \<open>createMux\<close> adds two
  routes to the router, one after the other: the template \<open>versionMatcher + R.Path()\<close> and
  the template \<open>R.Path()\<close>, both restricted to the method \<open>R.Method()\<close> and both with the
  same handler \<open>makeHTTPHandler(R.Handler())\<close>.  The router has these two routes per
  registered route and the wildcard route, nothing else; \<open>versionMatcher\<close> is
  \<open>/v{version:[0-9.]+}\<close>.  A request that either of the two routes is the first to match
  is resolved to that one handler.
\<close>

theorem createMux_two_forms:
  assumes "i < length (allRoutes s)"
  shows "routes (fst (createMux x s)) ! (2 * i) =
           \<lparr>tpl = versionMatcher @ Path (allRoutes s ! i), methods = [Method (allRoutes s ! i)],
            handler = makeHTTPHandler x s (Handler (allRoutes s ! i))\<rparr> \<and>
         routes (fst (createMux x s)) ! (2 * i + 1) =
           \<lparr>tpl = Path (allRoutes s ! i), methods = [Method (allRoutes s ! i)],
            handler = makeHTTPHandler x s (Handler (allRoutes s ! i))\<rparr> \<and>
         length (routes (fst (createMux x s))) = 2 * length (allRoutes s) + 1 \<and>
         versionMatcher = ''/v{version:[0-9.]+}'' \<and>
         (\<forall>pm r k. (k = 2 * i \<or> k = 2 * i + 1) \<and>
              route_matches pm (routes (fst (createMux x s)) ! k) r \<and>
              (\<forall>j<k. \<not> route_matches pm (routes (fst (createMux x s)) ! j) r) \<longrightarrow>
              resolve pm (fst (createMux x s)) r =
                Some (makeHTTPHandler x s (Handler (allRoutes s ! i))))"
proof -
  let ?a = "\<lambda>r. \<lparr>tpl = versionMatcher @ Path r, methods = [Method r],
                  handler = makeHTTPHandler x s (Handler r)\<rparr>"
  let ?b = "\<lambda>r. \<lparr>tpl = Path r, methods = [Method r],
                  handler = makeHTTPHandler x s (Handler r)\<rparr>"
  let ?ps = "concat (map (\<lambda>r. [?a r, ?b r]) (allRoutes s))"
  let ?m = "fst (createMux x s)"
  have R: "routes ?m = ?ps @ [\<lparr>tpl = versionMatcher @ ''/{path:.*}'', methods = [],
         handler = MakeErrorHandler x (NewRequestNotFoundError (Errorf ''page not found''))\<rparr>]"
    by (rule createMux_routes)
  have L: "length ?ps = 2 * length (allRoutes s)" by (rule length_concat_pairs)
  from assms L have lt: "2 * i < length ?ps" "2 * i + 1 < length ?ps" by simp_all
  have P: "?ps ! (2 * i) = ?a (allRoutes s ! i)" "?ps ! (2 * i + 1) = ?b (allRoutes s ! i)"
    using nth_concat_pairs[OF assms, of ?a ?b] by simp_all
  have 1: "routes ?m ! (2 * i) = ?a (allRoutes s ! i)"
    unfolding R using lt(1) P(1) by (simp add: nth_append)
  have 2: "routes ?m ! (2 * i + 1) = ?b (allRoutes s ! i)"
    unfolding R using lt(2) P(2) by (simp add: nth_append)
  have 3: "length (routes ?m) = 2 * length (allRoutes s) + 1"
    unfolding R using L by simp
  have 4: "resolve pm ?m r = Some (makeHTTPHandler x s (Handler (allRoutes s ! i)))"
    if k: "k = 2 * i \<or> k = 2 * i + 1" and m: "route_matches pm (routes ?m ! k) r"
      and n: "\<forall>j<k. \<not> route_matches pm (routes ?m ! j) r" for pm r k
  proof -
    from k lt 3 L have "k < length (routes ?m)" by auto
    from find_first[OF this, of "\<lambda>e. route_matches pm e r"] m n
    have "find (\<lambda>e. route_matches pm e r) (routes ?m) = Some (routes ?m ! k)" by simp
    moreover from k 1 2 have "handler (routes ?m ! k) = makeHTTPHandler x s (Handler (allRoutes s ! i))"
      by auto
    ultimately show ?thesis by (simp add: resolve_def)
  qed
  have 5: "versionMatcher = ''/v{version:[0-9.]+}''" by (simp add: versionMatcher_def)
  have 6: "\<forall>pm r k. (k = 2 * i \<or> k = 2 * i + 1) \<and>
              route_matches pm (routes ?m ! k) r \<and>
              (\<forall>j<k. \<not> route_matches pm (routes ?m ! j) r) \<longrightarrow>
              resolve pm ?m r = Some (makeHTTPHandler x s (Handler (allRoutes s ! i)))"
    using 4 by blast
  from 1 2 3 5 6 show ?thesis by (intro conjI)
qed

text \<open>
  Claim C5.  The router built by \<open>createMux\<close> has the handler
  \<open>MakeErrorHandler(NewRequestNotFoundError("page not found"))\<close> both as its
  \<open>NotFoundHandler\<close> and as the handler of its last route, the template
  \<open>versionMatcher + "/{path:.*}"\<close> with no method restriction.  A request that none of
  the routes registered for the routers matches is resolved to this handler, whether the
  wildcard route matches it or not, never to the library's plain 404.
  \<open>MakeErrorHandler\<close> is the function \<open>makeHTTPHandler\<close> answers a handler's error
  with.
\<close>

theorem createMux_not_found:
  "NotFoundHandler (fst (createMux x s)) =
     Some (MakeErrorHandler x (NewRequestNotFoundError (Errorf ''page not found''))) \<and>
   last (routes (fst (createMux x s))) =
     \<lparr>tpl = versionMatcher @ ''/{path:.*}'', methods = [],
      handler = MakeErrorHandler x (NewRequestNotFoundError (Errorf ''page not found''))\<rparr> \<and>
   (\<forall>pm r. (\<forall>k < 2 * length (allRoutes s). \<not> route_matches pm (routes (fst (createMux x s)) ! k) r) \<longrightarrow>
        resolve pm (fst (createMux x s)) r =
          Some (MakeErrorHandler x (NewRequestNotFoundError (Errorf ''page not found''))))"
proof -
  let ?nf = "MakeErrorHandler x (NewRequestNotFoundError (Errorf ''page not found''))"
  let ?w = "\<lparr>tpl = versionMatcher @ ''/{path:.*}'', methods = [], handler = ?nf\<rparr>"
  let ?m = "fst (createMux x s)"
  define ps where "ps = concat (map (\<lambda>r. [\<lparr>tpl = versionMatcher @ Path r, methods = [Method r],
                                     handler = makeHTTPHandler x s (Handler r)\<rparr>,
                                   \<lparr>tpl = Path r, methods = [Method r],
                                     handler = makeHTTPHandler x s (Handler r)\<rparr>]) (allRoutes s))"
  have R: "routes ?m = ps @ [?w]" unfolding ps_def by (rule createMux_routes)
  have L: "length ps = 2 * length (allRoutes s)" unfolding ps_def by (rule length_concat_pairs)
  have N: "NotFoundHandler ?m = Some ?nf" by (rule createMux_NotFoundHandler)
  have 3: "resolve pm ?m r = Some ?nf"
    if n: "\<forall>k < 2 * length (allRoutes s). \<not> route_matches pm (routes ?m ! k) r" for pm r
  proof -
    have "\<forall>j<length ps. \<not> route_matches pm (ps ! j) r"
      using n L R by (auto simp: nth_append)
    then have "find (\<lambda>e. route_matches pm e r) ps = None" by (rule find_none)
    then have "find (\<lambda>e. route_matches pm e r) (routes ?m) =
        (if route_matches pm ?w r then Some ?w else None)"
      unfolding R by (rule find_snoc)
    then show ?thesis using N by (simp add: resolve_def)
  qed
  from N R 3 show ?thesis by simp
qed

text \<open>
  Claim C6.  The adapter calls the wrapped handler with a map that is not nil: the map
  \<open>mux.Vars(r)\<close> when that is not nil, and a new empty map when it is.
\<close>

theorem makeHTTPHandler_vars_not_nil:
  "\<exists>m. makeHTTPHandler x s h r =
          (case handlerWithGlobalMiddlewares x s h (WithValue Background UAStringKey (UserAgent r)) r (Some m) of
             (out, None) \<Rightarrow> out
           | (out, Some err) \<Rightarrow> out @ handleError x r err) \<and>
        m = (case Vars r of None \<Rightarrow> Map.empty | Some v \<Rightarrow> v)"
  by (cases "Vars r") (simp_all add: makeHTTPHandler_def Let_def)

text \<open>
  Claim C7.  When the wrapped handler returns an error, the adapter logs one line with
  the method, the path and the error, in the format \<open>%+v\<close> when
  \<open>GetHTTPErrorStatusCode\<close> maps the error to 500 and in the format \<open>%v\<close> otherwise, and
  then writes the response of \<open>MakeErrorHandler(err)\<close>, which does not depend on the
  format chosen.
\<close>

theorem makeHTTPHandler_error_log:
  assumes "handlerWithGlobalMiddlewares x s h (WithValue Background UAStringKey (UserAgent r)) r
             (if Vars r = None then Some Map.empty else Vars r) = (out, Some err)"
  shows "makeHTTPHandler x s h r =
           out @ [Logged (Logf ErrorLevel
                    (''Handler for %s %s returned error: '' @
                       (if GetHTTPErrorStatusCode x err = 500 then ''%+v'' else ''%v''))
                    [S (reqMethod r), S (URLPath r), E err])]
               @ MakeErrorHandler x err r"
  using assms
  by (simp add: makeHTTPHandler_def handleError_def Let_def StatusInternalServerError_def)

subsection \<open>\<open>Close\<close>\<close>




subsection \<open>The example server\<close>

lemma example_routes:
  "routes (fst (createMux example_externals example_server)) =
     [\<lparr>tpl = versionMatcher @ ''/info'', methods = [''GET''],
        handler = makeHTTPHandler example_externals example_server info_handler\<rparr>,
      \<lparr>tpl = ''/info'', methods = [''GET''],
        handler = makeHTTPHandler example_externals example_server info_handler\<rparr>,
      \<lparr>tpl = versionMatcher @ ''/fail'', methods = [''POST''],
        handler = makeHTTPHandler example_externals example_server fail_handler\<rparr>,
      \<lparr>tpl = ''/fail'', methods = [''POST''],
        handler = makeHTTPHandler example_externals example_server fail_handler\<rparr>,
      \<lparr>tpl = versionMatcher @ ''/{path:.*}'', methods = [],
        handler = MakeErrorHandler example_externals
                    (NewRequestNotFoundError (Errorf ''page not found''))\<rparr>]"
  by (simp add: createMux_routes allRoutes_def example_server_def)

theorem createMux_two_forms_witness:
  "0 < length (allRoutes example_server) \<and>
   resolve exact_match (fst (createMux example_externals example_server))
       (request_of ''GET'' ''/info'') =
     Some (makeHTTPHandler example_externals example_server info_handler) \<and>
   makeHTTPHandler example_externals example_server info_handler (request_of ''GET'' ''/info'') =
     [WriteHeader 200, Write ''{}'']"
proof -
  let ?m = "fst (createMux example_externals example_server)"
  let ?r = "request_of ''GET'' ''/info''"
  have h: "0 < length (allRoutes example_server)"
    by (simp add: allRoutes_def example_server_def)
  have r0: "Handler (allRoutes example_server ! 0) = info_handler"
    by (simp add: allRoutes_def example_server_def)
  have m: "route_matches exact_match (routes ?m ! 1) ?r"
    by (simp add: example_routes route_matches_def exact_match_def request_of_def)
  have n: "\<forall>j<1. \<not> route_matches exact_match (routes ?m ! j) ?r"
    by (simp add: example_routes route_matches_def exact_match_def request_of_def
        versionMatcher_def)
  have "resolve exact_match ?m ?r =
          Some (makeHTTPHandler example_externals example_server
                  (Handler (allRoutes example_server ! 0)))"
    by (rule createMux_two_forms[OF h, of example_externals, THEN conjunct2, THEN conjunct2,
          THEN conjunct2, THEN conjunct2, rule_format, where k = 1]) (use m n in simp)
  then have "resolve exact_match ?m ?r =
          Some (makeHTTPHandler example_externals example_server info_handler)"
    by (simp only: r0)
  moreover have "makeHTTPHandler example_externals example_server info_handler ?r =
     [WriteHeader 200, Write ''{}'']"
    by (simp add: makeHTTPHandler_def example_externals_def info_handler_def Let_def)
  ultimately show ?thesis using h by (intro conjI)
qed

theorem createMux_not_found_witness:
  "resolve exact_match (fst (createMux example_externals example_server))
       (request_of ''GET'' ''/v1.40/unknown'') =
     Some (MakeErrorHandler example_externals
             (NewRequestNotFoundError (Errorf ''page not found''))) \<and>
   MakeErrorHandler example_externals (NewRequestNotFoundError (Errorf ''page not found''))
       (request_of ''GET'' ''/v1.40/unknown'') =
     [WriteHeader 404, Write ''page not found'']"
proof -
  let ?m = "fst (createMux example_externals example_server)"
  let ?r = "request_of ''GET'' ''/v1.40/unknown''"
  have l: "2 * length (allRoutes example_server) = 4"
    by (simp add: allRoutes_def example_server_def)
  have n: "\<forall>k < 2 * length (allRoutes example_server).
              \<not> route_matches exact_match (routes ?m ! k) ?r"
    unfolding l
    by (auto simp: example_routes route_matches_def exact_match_def request_of_def
        versionMatcher_def nth_Cons' less_Suc_eq eval_nat_numeral)
  from createMux_not_found[of example_externals example_server] n
  have "resolve exact_match ?m ?r =
     Some (MakeErrorHandler example_externals
             (NewRequestNotFoundError (Errorf ''page not found'')))"
    by blast
  moreover have "MakeErrorHandler example_externals
       (NewRequestNotFoundError (Errorf ''page not found'')) ?r =
     [WriteHeader 404, Write ''page not found'']"
    by (simp add: example_externals_def)
  ultimately show ?thesis by (intro conjI)
qed

theorem makeHTTPHandler_error_log_witness:
  "makeHTTPHandler example_externals example_server fail_handler (request_of ''POST'' ''/fail'') =
     [Logged (Logf ErrorLevel ''Handler for %s %s returned error: %+v''
                [S ''POST'', S ''/fail'', E (Errorf ''driver failed'')]),
      WriteHeader 500, Write ''driver failed'']"
proof -
  let ?r = "request_of ''POST'' ''/fail''"
  have h: "handlerWithGlobalMiddlewares example_externals example_server fail_handler
             (WithValue Background UAStringKey (UserAgent ?r)) ?r
             (if Vars ?r = None then Some Map.empty else Vars ?r) =
           ([], Some (Errorf ''driver failed''))"
    by (simp add: example_externals_def fail_handler_def)
  from makeHTTPHandler_error_log[OF h]
  show ?thesis by (simp add: example_externals_def request_of_def)
qed

text \<open>
  The example server holds listener 3 twice: the second close of it fails, the error is
  logged, and listener 5 is closed all the same.
\<close>

lemma Close_example:
  "close_calls (Close close_once example_server \<lparr>world = [], close_log = [], close_calls = []\<rparr>) =
     [(3, None), (3, Some (Errorf ''close tcp: use of closed network connection'')), (5, None)] \<and>
   close_log (Close close_once example_server \<lparr>world = [], close_log = [], close_calls = []\<rparr>) =
     [Logv ErrorLevel [E (Errorf ''close tcp: use of closed network connection'')]] \<and>
   world (Close close_once example_server \<lparr>world = [], close_log = [], close_calls = []\<rparr>) =
     [5, 3]"
  by (simp add: Close_def example_server_def close_once_def Let_def)

end
